theory Spec2Isabelle
  imports Complex_Main
begin

section \<open>Requests (dockerhood\_libraries/requests.py)\<close>

text \<open>
  The four class constants \<open>Request.PENDING = 1\<close>, \<open>EXECUTING = 2\<close>, \<open>EXECUTED = 3\<close>
  and \<open>ERROR = -1\<close>; \<open>status_value\<close> gives the integer each one stands for.
\<close>

datatype status = PENDING | EXECUTING | EXECUTED | ERROR

fun status_value :: "status \<Rightarrow> int" where
  "status_value PENDING = 1"
| "status_value EXECUTING = 2"
| "status_value EXECUTED = 3"
| "status_value ERROR = - 1"

text \<open>
  Python values that an answer can hold: \<open>None\<close>, a string (the error line written by
  \<open>execute\<close>) or any other object returned by an action.
\<close>

datatype 'a pyval = PyNone | PyStr string | PyObj 'a

text \<open>
  An action is a zero-argument callable. Calling it returns a value, raises
  \<open>SystemExit\<close>, or raises something else; in the last case the outcome carries the text
  that \<open>traceback.format_exc()\<close> prints below its header line (the stack entries and
  the lines of the exception itself).
\<close>

datatype 'a outcome = Return "'a pyval" | RaiseSystemExit | RaiseOther string

type_synonym 'a action = "unit \<Rightarrow> 'a outcome"

datatype exn = SystemExit | IndexError | KeyError

record 'a request =
  uuid :: string
  creation_time :: int
  action :: "'a action"
  status :: status
  answer :: "'a pyval"

text \<open>
  \<open>Request.__init__\<close>: the fresh uuid (\<open>str(uuid4())\<close>) and the clock reading
  (\<open>datetime.now()\<close>, in microseconds) are inputs of the model.
\<close>

definition Request_init :: "string \<Rightarrow> int \<Rightarrow> 'a action \<Rightarrow> 'a request" where
  "Request_init new_uuid now act =
     \<lparr>uuid = new_uuid, creation_time = now, action = act, status = PENDING, answer = PyNone\<rparr>"

text \<open>\<open>Request.age\<close>, with the clock reading \<open>now\<close> as input.\<close>

definition age :: "int \<Rightarrow> 'a request \<Rightarrow> int" where
  "age now r = now - creation_time r"

subsection \<open>Strings\<close>

definition newline :: char where
  "newline = CHR 0x0A"

text \<open>
  Python's \<open>s.split(sep)\<close> for a one-character separator: the pieces between the
  separators, empty pieces included; the empty string gives one empty piece.
\<close>

fun split :: "char \<Rightarrow> string \<Rightarrow> string list" where
  "split sep [] = [[]]"
| "split sep (c # cs) =
     (if c = sep then [] # split sep cs
      else (case split sep cs of
              [] \<Rightarrow> [[c]]
            | l # ls \<Rightarrow> (c # l) # ls))"

text \<open>
  \<open>traceback.format_exc()\<close> inside an \<open>except\<close> block: the header line, then the
  stack entries and the exception lines.
\<close>

definition format_exc :: "string \<Rightarrow> string" where
  "format_exc body = ''Traceback (most recent call last):'' @ [newline] @ body"

subsection \<open>The object store\<close>

text \<open>
  Request objects are shared by reference between the dictionary of the
  \<open>RequestManager\<close> and the main thread, which mutates the object it got from
  \<open>get_next_request\<close>. The model keeps the objects in a store indexed by references;
  the dictionary maps a uuid to a reference.
\<close>

type_synonym ref = nat

record 'a state =
  heap :: "ref \<Rightarrow> 'a request"
  next_ref :: ref
  request_dict :: "string \<rightharpoonup> ref"
  request_deque :: "string list"
  responsiveness :: rat
  discard_time :: int

text \<open>
  \<open>RequestManager.__init__\<close>: empty dictionary and deque; \<open>responsiveness\<close> (seconds)
  defaults to 0.5 and \<open>discard_time\<close> to one day (in microseconds). The store starts
  with no object allocated.
\<close>

definition one_day :: int where
  "one_day = 86400000000"

definition RequestManager_init :: "rat option \<Rightarrow> int option \<Rightarrow> 'a state" where
  "RequestManager_init resp discard =
     \<lparr>heap = (\<lambda>_. Request_init [] 0 (\<lambda>_. Return PyNone)),
      next_ref = 0,
      request_dict = Map.empty,
      request_deque = [],
      responsiveness = (case resp of None \<Rightarrow> 1 / 2 | Some x \<Rightarrow> x),
      discard_time = (case discard of None \<Rightarrow> one_day | Some d \<Rightarrow> d)\<rparr>"

subsection \<open>Request.execute\<close>

text \<open>
  \<open>execute\<close> first sets the status to \<open>EXECUTING\<close>, then runs the \<open>try\<close> block. The two
  parts are separate definitions because other threads read the status in between.
\<close>

definition set_request :: "ref \<Rightarrow> 'a request \<Rightarrow> 'a state \<Rightarrow> 'a state" where
  "set_request p r s = s\<lparr>heap := (heap s)(p := r)\<rparr>"

definition execute_begin :: "ref \<Rightarrow> 'a state \<Rightarrow> 'a state" where
  "execute_begin p s = set_request p ((heap s p)\<lparr>status := EXECUTING\<rparr>) s"

definition execute_try :: "ref \<Rightarrow> 'a state \<Rightarrow> exn option \<times> 'a state" where
  "execute_try p s =
     (let r = heap s p in
      case action r () of
        Return v \<Rightarrow> (None, set_request p (r\<lparr>answer := v, status := EXECUTED\<rparr>) s)
      | RaiseSystemExit \<Rightarrow> (Some SystemExit, set_request p (r\<lparr>status := EXECUTED\<rparr>) s)
      | RaiseOther body \<Rightarrow>
          (let err_mesg = format_exc body;
               traceback_lines = filter (\<lambda>l. l \<noteq> []) (split newline err_mesg)
           in if traceback_lines = [] then (Some IndexError, s)
              else (None, set_request p
                      (r\<lparr>answer := PyStr (last traceback_lines), status := ERROR\<rparr>) s)))"

definition execute :: "ref \<Rightarrow> 'a state \<Rightarrow> exn option \<times> 'a state" where
  "execute p s = execute_try p (execute_begin p s)"

subsection \<open>RequestManager\<close>

text \<open>
  \<open>create_request\<close>: builds the Request (allocating it in the store), appends its uuid
  to the deque and stores it in the dictionary. Returns the uuid.
\<close>

definition create_request :: "string \<Rightarrow> int \<Rightarrow> 'a action \<Rightarrow> 'a state \<Rightarrow> string \<times> 'a state" where
  "create_request new_uuid now act s =
     (let request = Request_init new_uuid now act;
          p = next_ref s
      in (uuid request,
          s\<lparr>heap := (heap s)(p := request),
            next_ref := Suc p,
            request_deque := request_deque s @ [uuid request],
            request_dict := (request_dict s)(uuid request \<mapsto> p)\<rparr>))"

text \<open>
  \<open>get_next_request\<close>: pops the head of the deque (\<open>IndexError\<close> caught: result
  \<open>None\<close>) and looks the uuid up in the dictionary with \<open>[]\<close>, which raises
  \<open>KeyError\<close> for a missing key.
\<close>

definition get_next_request :: "'a state \<Rightarrow> exn + (ref option \<times> 'a state)" where
  "get_next_request s =
     (case request_deque s of
        [] \<Rightarrow> Inr (None, s)
      | next_request_uuid # rest \<Rightarrow>
          (case request_dict s next_request_uuid of
             None \<Rightarrow> Inl KeyError
           | Some p \<Rightarrow> Inr (Some p, s\<lparr>request_deque := rest\<rparr>)))"

definition get_request_status :: "'a state \<Rightarrow> string \<Rightarrow> status option" where
  "get_request_status s request_uuid =
     (case request_dict s request_uuid of
        None \<Rightarrow> None
      | Some p \<Rightarrow> Some (status (heap s p)))"

definition get_answer :: "'a state \<Rightarrow> string \<Rightarrow> 'a pyval" where
  "get_answer s request_uuid =
     (case request_dict s request_uuid of
        None \<Rightarrow> PyNone
      | Some p \<Rightarrow> answer (heap s p))"

text \<open>
  The body of \<open>run\<close> after the hourly test: the deque is replaced by an empty one and
  the old queue is walked from the left; a request older than \<open>discard_time\<close> is deleted
  from the dictionary, any other uuid is appended to the new deque. The clock is read
  as \<open>now\<close> for the whole walk.
\<close>

fun discard_loop :: "int \<Rightarrow> string list \<Rightarrow> 'a state \<Rightarrow> exn + 'a state" where
  "discard_loop now [] s = Inr s"
| "discard_loop now (u # old_queue) s =
     (case request_dict s u of
        None \<Rightarrow> Inl KeyError
      | Some p \<Rightarrow>
          if age now (heap s p) > discard_time s
          then discard_loop now old_queue (s\<lparr>request_dict := (request_dict s)(u := None)\<rparr>)
          else discard_loop now old_queue (s\<lparr>request_deque := request_deque s @ [u]\<rparr>))"

definition discard_old :: "int \<Rightarrow> 'a state \<Rightarrow> exn + 'a state" where
  "discard_old now s = discard_loop now (request_deque s) (s\<lparr>request_deque := []\<rparr>)"

text \<open>
  \<open>RequestManager.run\<close>. Every iteration sleeps for \<open>responsiveness\<close> seconds, adds
  them to \<open>time_passed\<close>, leaves the loop when the stop flag is set, starts over while
  \<open>time_passed < 3600\<close>, and otherwise discards the old requests. The loop has no other
  exit, so the model runs it over a list of what each iteration reads from outside (the
  stop flag and the clock) and returns what each iteration did.
\<close>

datatype tick = Stopped | Waited | Discarded

fun run_loop :: "(bool \<times> int) list \<Rightarrow> rat \<Rightarrow> 'a state \<Rightarrow> exn + (tick list \<times> 'a state)" where
  "run_loop [] time_passed s = Inr ([], s)"
| "run_loop ((stop_flag, now) # env) time_passed s =
     (let time_passed = time_passed + responsiveness s in
      if stop_flag then Inr ([Stopped], s)
      else if time_passed < 3600 then
        (case run_loop env time_passed s of
           Inl e \<Rightarrow> Inl e
         | Inr (ts, s') \<Rightarrow> Inr (Waited # ts, s'))
      else
        (case discard_old now s of
           Inl e \<Rightarrow> Inl e
         | Inr s1 \<Rightarrow>
             (case run_loop env time_passed s1 of
                Inl e \<Rightarrow> Inl e
              | Inr (ts, s') \<Rightarrow> Inr (Discarded # ts, s'))))"

definition run :: "(bool \<times> int) list \<Rightarrow> 'a state \<Rightarrow> exn + (tick list \<times> 'a state)" where
  "run env s = run_loop env 0 s"

section \<open>The main loop (dockerhood.py)\<close>

text \<open>
  What the main thread does to the StatusUpdater is recorded as the list of the methods
  it called. \<open>request\<close> is the local variable of the loop; \<open>main\<close> tells where the main
  thread is: at the head of the loop, inside \<open>request.execute()\<close> after the status was
  set to \<open>EXECUTING\<close>, or out of the loop.
\<close>

datatype updater_call = Pause | Update | Unpause

datatype main_pc = LoopHead | InExecute | LeftLoop

record 'a system =
  manager :: "'a state"
  request :: "ref option"
  main :: main_pc
  calls :: "updater_call list"

definition system_init :: "'a state \<Rightarrow> 'a system" where
  "system_init m = \<lparr>manager = m, request = None, main = LoopHead, calls = []\<rparr>"

text \<open>
  One pass through the body of \<open>while True\<close>, from the head of the loop back to it (or
  out of it with an exception).
\<close>

definition coordinator_iteration :: "'a system \<Rightarrow> exn option \<times> 'a system" where
  "coordinator_iteration sys =
     (case get_next_request (manager sys) of
        Inl e \<Rightarrow> (Some e, sys\<lparr>main := LeftLoop\<rparr>)
      | Inr (r, m) \<Rightarrow>
          (let sys1 = sys\<lparr>manager := m, request := r\<rparr> in
           case r of
             None \<Rightarrow> (None, sys1)
           | Some p \<Rightarrow>
               (let sys2 = sys1\<lparr>calls := calls sys1 @ [Pause]\<rparr> in
                case execute p (manager sys2) of
                  (Some e, m') \<Rightarrow> (Some e, sys2\<lparr>manager := m', main := LeftLoop\<rparr>)
                | (None, m') \<Rightarrow>
                    (None, sys2\<lparr>manager := m', calls := calls sys2 @ [Update, Unpause]\<rparr>))))"

text \<open>The loop, for at most \<open>n\<close> passes; it stops at the first exception.\<close>

fun coordinator_loop :: "nat \<Rightarrow> 'a system \<Rightarrow> exn option \<times> 'a system" where
  "coordinator_loop 0 sys = (None, sys)"
| "coordinator_loop (Suc n) sys =
     (case coordinator_iteration sys of
        (Some e, sys') \<Rightarrow> (Some e, sys')
      | (None, sys') \<Rightarrow> coordinator_loop n sys')"

text \<open>
  The same pass in two steps, so that the other threads can run while the action is
  being executed: from the head of the loop to the call of the action, and from there
  back to the head of the loop.
\<close>

definition main_step :: "'a system \<Rightarrow> exn option \<times> 'a system" where
  "main_step sys =
     (case main sys of
        LoopHead \<Rightarrow>
          (case get_next_request (manager sys) of
             Inl e \<Rightarrow> (Some e, sys\<lparr>main := LeftLoop\<rparr>)
           | Inr (r, m) \<Rightarrow>
               (let sys1 = sys\<lparr>manager := m, request := r\<rparr> in
                case r of
                  None \<Rightarrow> (None, sys1)
                | Some p \<Rightarrow>
                    (None, sys1\<lparr>calls := calls sys1 @ [Pause],
                                manager := execute_begin p m,
                                main := InExecute\<rparr>)))
      | InExecute \<Rightarrow>
          (case request sys of
             None \<Rightarrow> (None, sys)
           | Some p \<Rightarrow>
               (case execute_try p (manager sys) of
                  (Some e, m') \<Rightarrow> (Some e, sys\<lparr>manager := m', main := LeftLoop\<rparr>)
                | (None, m') \<Rightarrow>
                    (None, sys\<lparr>manager := m', calls := calls sys @ [Update, Unpause],
                               main := LoopHead\<rparr>)))
      | LeftLoop \<Rightarrow> (None, sys))"

text \<open>
  The threads that touch the requests, as events: an interface thread creates a request,
  the RequestManager thread discards the old ones, the main thread makes a step.
\<close>

datatype 'a event = Create string int "'a action" | Discard int | Main

definition apply_event :: "'a event \<Rightarrow> 'a system \<Rightarrow> exn option \<times> 'a system" where
  "apply_event ev sys =
     (case ev of
        Create new_uuid now act \<Rightarrow>
          (None, sys\<lparr>manager := snd (create_request new_uuid now act (manager sys))\<rparr>)
      | Discard now \<Rightarrow>
          (case discard_old now (manager sys) of
             Inl e \<Rightarrow> (Some e, sys)
           | Inr m \<Rightarrow> (None, sys\<lparr>manager := m\<rparr>))
      | Main \<Rightarrow> main_step sys)"

section \<open>The status of the infrastructure (dockerhood\_libraries/status.py)\<close>

text \<open>
  \<open>DockerhoodStatus\<close> caches what the docker hosts answer. The queries of
  \<open>container_checks\<close> and \<open>docker_utilities\<close> talk to the docker engines; here their
  answers are inputs: each query returns a value or raises an error of type \<open>'e\<close>.
  \<open>hosts\<close> and \<open>project\<close> are the two configuration values that \<open>update\<close> reads.
\<close>

record ('h, 'w, 'e) infrastructure =
  hosts :: "'h list"
  project :: string
  ask_linker_exists :: "'e + bool"
  ask_linker_is_running :: "'e + bool"
  ask_slurm_master_host :: "'e + 'h option"
  ask_slurm_master_is_running :: "'e + bool"
  ask_worker_list :: "'e + 'w list"
  ask_image_list :: "'h \<Rightarrow> 'e + string list"

record ('h, 'w) dockerhood_status =
  linker_exists :: bool
  linker_is_running :: bool
  slurm_master_exists :: bool
  slurm_master_host :: "'h option"
  slurm_master_is_running :: bool
  worker_list :: "'w list"
  images :: "'h \<rightharpoonup> string list"

text \<open>Python's \<open>i.startswith(p)\<close>.\<close>

definition startswith :: "string \<Rightarrow> string \<Rightarrow> bool" where
  "startswith i p \<longleftrightarrow> take (length p) i = p"

text \<open>The last loop of \<open>update\<close>: the image tags of the project, host by host.\<close>

fun update_images ::
  "'h list \<Rightarrow> ('h, 'w, 'e) infrastructure \<Rightarrow> ('h, 'w) dockerhood_status
     \<Rightarrow> 'e option \<times> ('h, 'w) dockerhood_status" where
  "update_images [] env st = (None, st)"
| "update_images (host # rest) env st =
     (case ask_image_list env host of
        Inl e \<Rightarrow> (Some e, st)
      | Inr tags \<Rightarrow>
          update_images rest env
            (st\<lparr>images := (images st)(host \<mapsto> filter (\<lambda>i. startswith i (project env @ ''_'')) tags)\<rparr>))"

text \<open>
  \<open>DockerhoodStatus.update\<close>: the assignments in the order of the source. A query that
  raises ends the update there; the fields assigned before keep their new values.
\<close>

definition update ::
  "('h, 'w, 'e) infrastructure \<Rightarrow> ('h, 'w) dockerhood_status
     \<Rightarrow> 'e option \<times> ('h, 'w) dockerhood_status" where
  "update env st =
     (case ask_linker_exists env of
        Inl e \<Rightarrow> (Some e, st)
      | Inr le \<Rightarrow>
     (let st1 = st\<lparr>linker_exists := le\<rparr> in
      case ask_linker_is_running env of
        Inl e \<Rightarrow> (Some e, st1)
      | Inr lr \<Rightarrow>
     (let st2 = st1\<lparr>linker_is_running := lr\<rparr> in
      case ask_slurm_master_host env of
        Inl e \<Rightarrow> (Some e, st2)
      | Inr mh \<Rightarrow>
     (let st3 = st2\<lparr>slurm_master_host := mh\<rparr>;
          st4 = (if slurm_master_host st3 = None
                 then st3\<lparr>slurm_master_exists := False\<rparr>
                 else st3\<lparr>slurm_master_exists := True\<rparr>)
      in
      case ask_slurm_master_is_running env of
        Inl e \<Rightarrow> (Some e, st4)
      | Inr mr \<Rightarrow>
     (let st5 = st4\<lparr>slurm_master_is_running := mr\<rparr> in
      case ask_worker_list env of
        Inl e \<Rightarrow> (Some e, st5)
      | Inr wl \<Rightarrow> update_images (hosts env) env (st5\<lparr>worker_list := wl\<rparr>))))))"

text \<open>
  \<open>DockerhoodStatus.__init__\<close>: the default values, an empty image list for every host,
  then \<open>update\<close>. An error raised by \<open>update\<close> leaves the constructor, and no object
  is built.
\<close>

definition DockerhoodStatus_init ::
  "('h, 'w, 'e) infrastructure \<Rightarrow> 'e + ('h, 'w) dockerhood_status" where
  "DockerhoodStatus_init env =
     (let st = \<lparr>linker_exists = False, linker_is_running = False,
                slurm_master_exists = False, slurm_master_host = None,
                slurm_master_is_running = False, worker_list = [],
                images = fold (\<lambda>host m. m(host \<mapsto> [])) (hosts env) Map.empty\<rparr>
      in case update env st of
           (Some e, _) \<Rightarrow> Inl e
         | (None, st') \<Rightarrow> Inr st')"

subsection \<open>StatusUpdater\<close>

text \<open>
  The fields of the thread object, the local variable \<open>time_without_update\<close> of
  \<open>run\<close>, the stop flag it shares with the other threads, and the place where \<open>run\<close>
  is: at the test of the first inner loop, at the test of the second inner loop, after
  the two loops, or returned. Each call of \<open>self._update()\<close> is recorded with the place
  it was made from.
\<close>

datatype updater_pc = FirstLoop | SecondLoop | AfterLoops | Returned

datatype update_site = RequestedInFirstLoop | TimerInFirstLoop | RequestedInSecondLoop

record updater =
  update_time :: rat
  resp :: rat
  update_now :: bool
  executed :: bool
  paused :: bool
  stop_flag :: bool
  time_without_update :: rat
  pc :: updater_pc
  updates :: "update_site list"

text \<open>
  \<open>StatusUpdater.__init__\<close> (defaults: \<open>update_time = 5\<close>, \<open>responsiveness = 0.5\<close>)
  followed by the first statement of \<open>run\<close>, \<open>time_without_update = 0\<close>.
\<close>

definition StatusUpdater_init :: "rat option \<Rightarrow> rat option \<Rightarrow> updater" where
  "StatusUpdater_init ut rs =
     \<lparr>update_time = (case ut of None \<Rightarrow> 5 | Some x \<Rightarrow> x),
      resp = (case rs of None \<Rightarrow> 1 / 2 | Some x \<Rightarrow> x),
      update_now = False, executed = False, paused = False, stop_flag = False,
      time_without_update = 0, pc = FirstLoop, updates = []\<rparr>"

text \<open>\<open>pause\<close>, \<open>unpause\<close>, and the first assignment of \<open>update\<close>, made by other threads.\<close>

definition pause :: "updater \<Rightarrow> updater" where
  "pause u = u\<lparr>paused := True\<rparr>"

definition unpause :: "updater \<Rightarrow> updater" where
  "unpause u = u\<lparr>paused := False\<rparr>"

definition set_update_now :: "updater \<Rightarrow> updater" where
  "set_update_now u = u\<lparr>update_now := True\<rparr>"

text \<open>One iteration of the first inner loop, its test passed.\<close>

definition first_loop_body :: "updater \<Rightarrow> updater" where
  "first_loop_body u =
     (let u1 = u\<lparr>time_without_update := time_without_update u + resp u\<rparr> in
      if stop_flag u1 then u1\<lparr>pc := SecondLoop\<rparr>
      else
        (let u2 = (if update_now u1
                   then u1\<lparr>time_without_update := 0, update_now := False,
                           updates := updates u1 @ [RequestedInFirstLoop], executed := True\<rparr>
                   else u1);
             u3 = (if time_without_update u2 > update_time u2
                   then u2\<lparr>time_without_update := 0, updates := updates u2 @ [TimerInFirstLoop]\<rparr>
                   else u2)
         in u3))"

text \<open>One iteration of the second inner loop, its test passed.\<close>

definition second_loop_body :: "updater \<Rightarrow> updater" where
  "second_loop_body u =
     (if stop_flag u then u\<lparr>pc := AfterLoops\<rparr>
      else if update_now u
      then u\<lparr>update_now := False, updates := updates u @ [RequestedInSecondLoop], executed := True\<rparr>
      else u)"

text \<open>
  One step of \<open>run\<close>: the test of an inner loop and, when it passes, one iteration of
  its body; or the statements after the two loops. Both inner loops test \<open>self._paused\<close>.
\<close>

definition step :: "updater \<Rightarrow> updater" where
  "step u =
     (case pc u of
        FirstLoop \<Rightarrow> if paused u then first_loop_body u else u\<lparr>pc := SecondLoop\<rparr>
      | SecondLoop \<Rightarrow> if paused u then second_loop_body u else u\<lparr>pc := AfterLoops\<rparr>
      | AfterLoops \<Rightarrow>
          if stop_flag u then u\<lparr>pc := Returned\<rparr>
          else u\<lparr>time_without_update := 0, pc := FirstLoop\<rparr>
      | Returned \<Rightarrow> u)"

fun steps :: "nat \<Rightarrow> updater \<Rightarrow> updater" where
  "steps 0 u = u"
| "steps (Suc n) u = steps n (step u)"

section \<open>Properties\<close>

subsection \<open>Definitions used by the statements\<close>

text \<open>
  The inverse of \<open>split\<close>: the pieces put together with the separator
  between them.
\<close>

fun join :: "char \<Rightarrow> string list \<Rightarrow> string" where
  "join sep [] = []"
| "join sep [l] = l"
| "join sep (l # l' # ls) = l @ sep # join sep (l' # ls)"

text \<open>Every uuid of the deque is a key of the dictionary.\<close>

definition fifo_in_map :: "'a state \<Rightarrow> bool" where
  "fifo_in_map s \<longleftrightarrow> set (request_deque s) \<subseteq> dom (request_dict s)"

text \<open>
  A request whose action raises \<open>ValueError('boom')\<close>, and one whose action
  raises \<open>SystemExit\<close>.
\<close>

definition boom_body :: string where
  "boom_body = ''  File x.py, line 1, in f\<newline>ValueError: boom\<newline>''"

definition boom_state :: "nat state" where
  "boom_state =
     snd (create_request ''b'' 0 (\<lambda>_. RaiseOther boom_body) (RequestManager_init None None))"

definition exit_state :: "nat state" where
  "exit_state =
     snd (create_request ''x'' 0 (\<lambda>_. RaiseSystemExit) (RequestManager_init None None))"

text \<open>The two fields about the slurm master say the same.\<close>

definition master_fields_agree :: "('h, 'w) dockerhood_status \<Rightarrow> bool" where
  "master_fields_agree st \<longleftrightarrow> (slurm_master_exists st \<longleftrightarrow> slurm_master_host st \<noteq> None)"

text \<open>
  Two hosts, the slurm master on the second one; one image of the project and one
  foreign image on each host.
\<close>

definition two_hosts :: "(nat, nat, nat) infrastructure" where
  "two_hosts =
     \<lparr>hosts = [0, 1], project = ''p'',
      ask_linker_exists = Inr True, ask_linker_is_running = Inr True,
      ask_slurm_master_host = Inr (Some 1), ask_slurm_master_is_running = Inr False,
      ask_worker_list = Inr [], ask_image_list = (\<lambda>h. Inr [''p_worker:latest'', ''ubuntu:16.04''])\<rparr>"

text \<open>The status built from \<open>two_hosts\<close>.\<close>

definition two_hosts_status :: "(nat, nat) dockerhood_status" where
  "two_hosts_status =
     \<lparr>linker_exists = True, linker_is_running = True,
      slurm_master_exists = True, slurm_master_host = Some 1,
      slurm_master_is_running = False, worker_list = [],
      images = [0 \<mapsto> [''p_worker:latest''], 1 \<mapsto> [''p_worker:latest'']]\<rparr>"

text \<open>The same hosts after the slurm master container has been removed.\<close>

definition no_master :: "(nat, nat, nat) infrastructure" where
  "no_master = two_hosts\<lparr>ask_slurm_master_host := Inr None\<rparr>"

text \<open>
  The test of the discarding loop for a uuid of the dictionary: its request is older
  than \<open>discard_time\<close>.
\<close>

definition too_old :: "int \<Rightarrow> 'a state \<Rightarrow> string \<Rightarrow> bool" where
  "too_old now s u \<longleftrightarrow>
     (case request_dict s u of
        None \<Rightarrow> False
      | Some p \<Rightarrow> age now (heap s p) > discard_time s)"

text \<open>The deque holds keys of the dictionary only, each at most once.\<close>

definition queue_ok :: "'a state \<Rightarrow> bool" where
  "queue_ok s \<longleftrightarrow> fifo_in_map s \<and> distinct (request_deque s)"

text \<open>
  The events of a list, one after the other. An exception ends the thread that raised
  it, not the others.
\<close>

fun exec :: "'a event list \<Rightarrow> 'a system \<Rightarrow> 'a system" where
  "exec [] sys = sys"
| "exec (ev # evs) sys = exec evs (snd (apply_event ev sys))"

text \<open>
  The uuid of a new request is not a key of the dictionary (\<open>uuid4\<close> does
  not repeat).
\<close>

definition fresh_uuid :: "'a event \<Rightarrow> 'a system \<Rightarrow> bool" where
  "fresh_uuid ev sys \<longleftrightarrow>
     (case ev of
        Create new_uuid now act \<Rightarrow> request_dict (manager sys) new_uuid = None
      | _ \<Rightarrow> True)"

fun fresh_uuids :: "'a event list \<Rightarrow> 'a system \<Rightarrow> bool" where
  "fresh_uuids [] sys = True"
| "fresh_uuids (ev # evs) sys \<longleftrightarrow> fresh_uuid ev sys \<and> fresh_uuids evs (snd (apply_event ev sys))"

text \<open>
  The order of the life of a request: \<open>PENDING\<close>, then
  \<open>EXECUTING\<close>, then one of \<open>EXECUTED\<close> and \<open>ERROR\<close>
  for good.
\<close>

fun status_le :: "status \<Rightarrow> status \<Rightarrow> bool" where
  "status_le PENDING b = True"
| "status_le EXECUTING b = (b \<noteq> PENDING)"
| "status_le EXECUTED b = (b = EXECUTED)"
| "status_le ERROR b = (b = ERROR)"

text \<open>
  Two successive answers of \<open>get_request_status\<close> for the same uuid: a uuid
  that becomes known is \<open>PENDING\<close>; a known one stays or moves forward in
  the order above; only a pending one can become unknown.
\<close>

fun status_step :: "status option \<Rightarrow> status option \<Rightarrow> bool" where
  "status_step None None = True"
| "status_step None (Some b) = (b = PENDING)"
| "status_step (Some a) None = (a = PENDING)"
| "status_step (Some a) (Some b) = status_le a b"

text \<open>
  What holds between the events: the deque has no duplicates and its uuids are keys of
  pending requests; the references of the dictionary are allocated and distinct; the
  request being executed is allocated and \<open>EXECUTING\<close>.
\<close>

definition sys_inv :: "'a system \<Rightarrow> bool" where
  "sys_inv sys \<longleftrightarrow>
     (let m = manager sys in
      distinct (request_deque m)
      \<and> (\<forall>u\<in>set (request_deque m). \<exists>p. request_dict m u = Some p \<and> status (heap m p) = PENDING)
      \<and> (\<forall>u p. request_dict m u = Some p \<longrightarrow> p < next_ref m)
      \<and> (\<forall>u v p. request_dict m u = Some p \<and> request_dict m v = Some p \<longrightarrow> u = v)
      \<and> (main sys = InExecute \<longrightarrow>
           (\<exists>p. request sys = Some p \<and> p < next_ref m \<and> status (heap m p) = EXECUTING)))"

text \<open>
  A new system with the default settings, and the events that create a request whose
  action returns 7 and bring the main thread to the call of that action.
\<close>

definition new_system :: "nat system" where
  "new_system = system_init (RequestManager_init None None)"

definition seven_events :: "nat event list" where
  "seven_events = [Create ''a'' 0 (\<lambda>_. Return (PyObj 7)), Main]"

text \<open>
  The events that create a request whose action raises \<open>SystemExit\<close> and
  start executing it.
\<close>

definition exit_events :: "nat event list" where
  "exit_events = [Create ''x'' 0 (\<lambda>_. RaiseSystemExit), Main]"

subsection \<open>Lines of a traceback\<close>

lemma split_not_Nil: "split sep s \<noteq> []"
  by (induction s) (auto split: list.splits)

lemma split_no_sep: "l \<in> set (split sep s) \<Longrightarrow> sep \<notin> set l"
  by (induction s arbitrary: l) (auto split: list.splits if_splits)

lemma join_split: "join sep (split sep s) = s"
proof (induction s)
  case Nil
  show ?case by simp
next
  case (Cons c cs)
  obtain l ls where sp: "split sep cs = l # ls"
    using split_not_Nil [of sep cs] by (cases "split sep cs") auto
  show ?case
  proof (cases "c = sep")
    case True
    with Cons sp show ?thesis by simp
  next
    case False
    with Cons sp show ?thesis by (cases ls) auto
  qed
qed

lemma last_filter_decomp:
  "filter P xs \<noteq> [] \<Longrightarrow>
     \<exists>ys zs. xs = ys @ [last (filter P xs)] @ zs \<and> P (last (filter P xs)) \<and> (\<forall>z\<in>set zs. \<not> P z)"
proof (induction xs rule: rev_induct)
  case Nil
  then show ?case by simp
next
  case (snoc x xs)
  show ?case
  proof (cases "P x")
    case True
    then show ?thesis
      by (intro exI [of _ xs] exI [of _ "[]"]) auto
  next
    case False
    with snoc.prems have ne: "filter P xs \<noteq> []" by simp
    from snoc.IH [OF ne] obtain ys zs where
      "xs = ys @ [last (filter P xs)] @ zs" "P (last (filter P xs))" "\<forall>z\<in>set zs. \<not> P z"
      by blast
    with False show ?thesis
      by (intro exI [of _ ys] exI [of _ "zs @ [x]"]) auto
  qed
qed

lemma split_format_exc_hd:
  "\<exists>ls. split newline (format_exc body) = ''Traceback (most recent call last):'' # ls"
  by (simp add: format_exc_def newline_def)

lemma traceback_lines_not_Nil:
  "filter (\<lambda>l. l \<noteq> []) (split newline (format_exc body)) \<noteq> []"
proof -
  obtain ls where "split newline (format_exc body) = ''Traceback (most recent call last):'' # ls"
    using split_format_exc_hd by blast
  then show ?thesis by simp
qed

lemma execute_RaiseOther:
  assumes "action (heap s p) () = RaiseOther body"
  shows "execute p s =
           (None, set_request p ((heap s p)\<lparr>answer :=
                PyStr (last (filter (\<lambda>l. l \<noteq> []) (split newline (format_exc body)))),
                status := ERROR\<rparr>) s)"
  using assms traceback_lines_not_Nil [of body]
  by (simp add: execute_def execute_try_def execute_begin_def set_request_def Let_def)

lemma execute_RaiseSystemExit:
  assumes "action (heap s p) () = RaiseSystemExit"
  shows "execute p s = (Some SystemExit, set_request p ((heap s p)\<lparr>status := EXECUTED\<rparr>) s)"
  using assms
  by (simp add: execute_def execute_try_def execute_begin_def set_request_def Let_def)

lemma execute_Return:
  assumes "action (heap s p) () = Return v"
  shows "execute p s = (None, set_request p ((heap s p)\<lparr>answer := v, status := EXECUTED\<rparr>) s)"
  using assms
  by (simp add: execute_def execute_try_def execute_begin_def set_request_def Let_def)

lemma get_next_request_heap:
  "get_next_request s = Inr (r, m) \<Longrightarrow> heap m = heap s"
  by (auto simp: get_next_request_def split: list.splits option.splits)

subsection \<open>An action that raises an error\<close>

text \<open>
  Claim C5. When the action raises anything but \<open>SystemExit\<close>, \<open>execute\<close> returns
  normally; the request is left with the status \<open>ERROR\<close> and with the last non-empty line
  of the traceback as its answer: a line of the traceback, not empty, without a newline,
  followed by empty lines only. A pass of the main loop that executes such a request
  ends without an exception, after the calls of \<open>pause\<close>, \<open>update\<close> and \<open>unpause\<close>.
\<close>

theorem execute_error_is_local:
  assumes act: "action (heap s p) () = RaiseOther body"
    and tl: "traceback_lines = split newline (format_exc body)"
    and ln: "line = last (filter (\<lambda>l. l \<noteq> []) traceback_lines)"
  shows "execute p s = (None, set_request p ((heap s p)\<lparr>answer := PyStr line, status := ERROR\<rparr>) s)
    \<and> line \<noteq> [] \<and> newline \<notin> set line
    \<and> (\<exists>before after. traceback_lines = before @ [line] @ after \<and> (\<forall>l\<in>set after. l = []))
    \<and> (manager sys = s \<and> get_next_request s = Inr (Some p, m) \<longrightarrow>
           coordinator_iteration sys =
             (None, sys\<lparr>manager := set_request p ((heap s p)\<lparr>answer := PyStr line, status := ERROR\<rparr>) m,
                        request := Some p,
                        calls := calls sys @ [Pause, Update, Unpause]\<rparr>))"
proof -
  have ne: "filter (\<lambda>l. l \<noteq> []) traceback_lines \<noteq> []"
    unfolding tl by (rule traceback_lines_not_Nil)
  from last_filter_decomp [OF ne] obtain before after where
    dec: "traceback_lines = before @ [line] @ after" "line \<noteq> []" "\<forall>l\<in>set after. \<not> l \<noteq> []"
    unfolding ln by blast
  have ex: "execute p s = (None, set_request p ((heap s p)\<lparr>answer := PyStr line, status := ERROR\<rparr>) s)"
    unfolding ln tl by (rule execute_RaiseOther [OF act])
  have "line \<in> set (split newline (format_exc body))"
    using dec(1) unfolding tl by simp
  then have single: "newline \<notin> set line" by (rule split_no_sep)
  have last_line: "\<exists>before after. traceback_lines = before @ [line] @ after \<and> (\<forall>l\<in>set after. l = [])"
    using dec(1,3) by blast
  have "coordinator_iteration sys =
             (None, sys\<lparr>manager := set_request p ((heap s p)\<lparr>answer := PyStr line, status := ERROR\<rparr>) m,
                        request := Some p,
                        calls := calls sys @ [Pause, Update, Unpause]\<rparr>)"
    if "manager sys = s" "get_next_request s = Inr (Some p, m)"
  proof -
    have h: "heap m = heap s" using that(2) by (rule get_next_request_heap)
    have "action (heap m p) () = RaiseOther body" using act h by simp
    from execute_RaiseOther [OF this]
    show ?thesis
      using that h
      by (simp add: coordinator_iteration_def Let_def ln tl)
  qed
  with ex dec(2) single last_line show ?thesis by blast
qed

lemma boom_lines:
  "split newline (format_exc boom_body) =
     [''Traceback (most recent call last):'', ''  File x.py, line 1, in f'', ''ValueError: boom'', []]"
  by (simp add: format_exc_def boom_body_def newline_def)

theorem execute_error_is_local_witness:
  "action (heap boom_state 0) () = RaiseOther boom_body
   \<and> manager (system_init boom_state) = boom_state
   \<and> get_next_request boom_state = Inr (Some 0, boom_state\<lparr>request_deque := []\<rparr>)
   \<and> execute 0 boom_state =
       (None, set_request 0 ((heap boom_state 0)\<lparr>answer := PyStr ''ValueError: boom'', status := ERROR\<rparr>) boom_state)
   \<and> fst (coordinator_iteration (system_init boom_state)) = None
   \<and> calls (snd (coordinator_iteration (system_init boom_state))) = [Pause, Update, Unpause]"
proof -
  have a: "action (heap boom_state 0) () = RaiseOther boom_body"
    by (simp add: boom_state_def create_request_def RequestManager_init_def Request_init_def)
  have g: "get_next_request boom_state = Inr (Some 0, boom_state\<lparr>request_deque := []\<rparr>)"
    by (simp add: boom_state_def create_request_def RequestManager_init_def Request_init_def
        get_next_request_def)
  have l: "''ValueError: boom'' = last (filter (\<lambda>l. l \<noteq> []) (split newline (format_exc boom_body)))"
    by (simp add: boom_lines)
  from execute_error_is_local [OF a refl l, of "system_init boom_state" "boom_state\<lparr>request_deque := []\<rparr>"] g a
  show ?thesis by (simp add: system_init_def)
qed

subsection \<open>The two fields about the slurm master\<close>

lemma update_images_master:
  "slurm_master_exists (snd (update_images hs env st)) = slurm_master_exists st
   \<and> slurm_master_host (snd (update_images hs env st)) = slurm_master_host st"
  by (induction hs env st rule: update_images.induct) (auto split: sum.splits)

lemma update_keeps_agreement:
  "master_fields_agree st \<Longrightarrow> master_fields_agree (snd (update env st))"
  by (auto simp: update_def master_fields_agree_def Let_def update_images_master
      split: sum.splits)

lemma update_establishes_agreement:
  "fst (update env st) = None \<Longrightarrow> master_fields_agree (snd (update env st))"
  by (auto simp: update_def master_fields_agree_def Let_def update_images_master
      split: sum.splits)

text \<open>
  Claim C10. A DockerhoodStatus that has been built has \<open>slurm_master_exists\<close> true
  exactly when \<open>slurm_master_host\<close> is not \<open>None\<close>; \<open>update\<close> keeps this, also when one
  of its queries raises, and a call of \<open>update\<close> that returns establishes it whatever
  the fields were before.
\<close>

theorem master_fields_never_disagree:
  "(DockerhoodStatus_init env = Inr st \<longrightarrow> master_fields_agree st)
   \<and> (master_fields_agree st' \<longrightarrow> master_fields_agree (snd (update env' st')))
   \<and> (fst (update env' st') = None \<longrightarrow> master_fields_agree (snd (update env' st')))"
proof (intro conjI impI)
  assume "DockerhoodStatus_init env = Inr st"
  then obtain st0 where "update env st0 = (None, st)"
    by (auto simp: DockerhoodStatus_init_def Let_def split: prod.splits option.splits)
  with update_establishes_agreement [of env st0] show "master_fields_agree st" by simp
qed (simp_all add: update_keeps_agreement update_establishes_agreement)

lemma two_hosts_init: "DockerhoodStatus_init two_hosts = Inr two_hosts_status"
  by (simp add: DockerhoodStatus_init_def two_hosts_def two_hosts_status_def update_def
      startswith_def)

lemma no_master_update:
  "update no_master two_hosts_status =
     (None, two_hosts_status\<lparr>slurm_master_exists := False, slurm_master_host := None\<rparr>)"
  by (simp add: no_master_def two_hosts_def two_hosts_status_def update_def startswith_def)

theorem master_fields_never_disagree_witness:
  "DockerhoodStatus_init two_hosts = Inr two_hosts_status
   \<and> master_fields_agree two_hosts_status
   \<and> fst (update no_master two_hosts_status) = None
   \<and> master_fields_agree (snd (update no_master two_hosts_status))
   \<and> slurm_master_exists two_hosts_status
   \<and> \<not> slurm_master_exists (snd (update no_master two_hosts_status))"
  using master_fields_never_disagree [of two_hosts two_hosts_status two_hosts_status no_master]
  by (simp add: two_hosts_init no_master_update) (simp add: two_hosts_status_def)

subsection \<open>Discarding the old requests\<close>

lemma too_old_cong:
  "request_dict s1 u = request_dict s u \<Longrightarrow> heap s1 = heap s \<Longrightarrow> discard_time s1 = discard_time s
     \<Longrightarrow> too_old now s1 u = too_old now s u"
  by (simp add: too_old_def split: option.splits)

lemma discard_loop_result:
  "set q \<subseteq> dom (request_dict s) \<Longrightarrow> distinct q \<Longrightarrow>
     discard_loop now q s =
       Inr (s\<lparr>request_deque := request_deque s @ filter (\<lambda>u. \<not> too_old now s u) q,
              request_dict := (\<lambda>u. if u \<in> set q \<and> too_old now s u then None else request_dict s u)\<rparr>)"
proof (induction q arbitrary: s)
  case Nil
  then show ?case by simp
next
  case (Cons u q)
  from Cons.prems obtain p where p: "request_dict s u = Some p" by auto
  from Cons.prems have uq: "u \<notin> set q" and dq: "distinct q" by simp_all
  show ?case
  proof (cases "age now (heap s p) > discard_time s")
    case True
    let ?s1 = "s\<lparr>request_dict := (request_dict s)(u := None)\<rparr>"
    have sub: "set q \<subseteq> dom (request_dict ?s1)" using Cons.prems uq by auto
    have same: "\<And>v. v \<in> set q \<Longrightarrow> too_old now ?s1 v = too_old now s v"
      using uq by (intro too_old_cong) auto
    have old: "too_old now s u" using p True by (simp add: too_old_def)
    have f: "filter (\<lambda>v. \<not> too_old now ?s1 v) q = filter (\<lambda>v. \<not> too_old now s v) q"
      using same by (intro filter_cong) auto
    have d: "(\<lambda>v. if v \<in> set q \<and> too_old now ?s1 v then None else request_dict ?s1 v)
           = (\<lambda>v. if v \<in> set (u # q) \<and> too_old now s v then None else request_dict s v)"
      using same old by (auto simp: fun_eq_iff)
    from Cons.IH [OF sub dq] p True f d old show ?thesis by simp
  next
    case False
    let ?s1 = "s\<lparr>request_deque := request_deque s @ [u]\<rparr>"
    have sub: "set q \<subseteq> dom (request_dict ?s1)" using Cons.prems by auto
    have same: "\<And>v. too_old now ?s1 v = too_old now s v"
      by (intro too_old_cong) auto
    have young: "\<not> too_old now s u" using p False by (simp add: too_old_def)
    have d: "(\<lambda>v. if v \<in> set q \<and> too_old now ?s1 v then None else request_dict ?s1 v)
           = (\<lambda>v. if v \<in> set (u # q) \<and> too_old now s v then None else request_dict s v)"
      using same young by (auto simp: fun_eq_iff)
    from Cons.IH [OF sub dq] p False young d show ?thesis by (simp add: same)
  qed
qed

lemma discard_old_result:
  assumes "queue_ok s"
  shows "discard_old now s =
       Inr (s\<lparr>request_deque := filter (\<lambda>u. \<not> too_old now s u) (request_deque s),
              request_dict := (\<lambda>u. if u \<in> set (request_deque s) \<and> too_old now s u then None
                                    else request_dict s u)\<rparr>)"
proof -
  let ?s0 = "s\<lparr>request_deque := []\<rparr>"
  have t: "\<And>u. too_old now ?s0 u = too_old now s u" by (intro too_old_cong) auto
  from assms have "set (request_deque s) \<subseteq> dom (request_dict ?s0)" "distinct (request_deque s)"
    by (auto simp: queue_ok_def fifo_in_map_def)
  from discard_loop_result [OF this, of now] show ?thesis
    by (simp add: discard_old_def t cong: if_cong)
qed

lemma queue_ok_init: "queue_ok (RequestManager_init r d)"
  by (simp add: queue_ok_def fifo_in_map_def RequestManager_init_def)

lemma queue_ok_create:
  "queue_ok s \<Longrightarrow> request_dict s new_uuid = None \<Longrightarrow>
     queue_ok (snd (create_request new_uuid now act s))"
  by (auto simp: queue_ok_def fifo_in_map_def create_request_def Request_init_def Let_def)

lemma queue_ok_get_next:
  "queue_ok s \<Longrightarrow> \<exists>r s'. get_next_request s = Inr (r, s') \<and> queue_ok s'
      \<and> request_dict s' = request_dict s"
  by (cases "request_deque s") (auto simp: queue_ok_def fifo_in_map_def get_next_request_def)

lemma queue_ok_discard:
  assumes "queue_ok s"
  shows "\<exists>s'. discard_old now s = Inr s' \<and> queue_ok s'
     \<and> (\<forall>u. request_dict s u \<noteq> None \<and> request_dict s' u = None \<longrightarrow>
            u \<in> set (request_deque s) \<and> u \<notin> set (request_deque s'))"
  using assms unfolding discard_old_result [OF assms]
  by (auto simp: queue_ok_def fifo_in_map_def split: if_splits)

subsection \<open>The status of a request over the events\<close>

lemma sys_inv_queue_ok: "sys_inv sys \<Longrightarrow> queue_ok (manager sys)"
  by (auto simp: sys_inv_def queue_ok_def fifo_in_map_def Let_def)

lemma status_le_refl: "status_le a a"
  by (cases a) simp_all

lemma status_step_refl: "status_step x x"
  by (cases x) (simp_all add: status_le_refl)

lemma sys_inv_init: "sys_inv (system_init (RequestManager_init r d))"
  by (simp add: sys_inv_def system_init_def RequestManager_init_def)

lemma sys_invI:
  assumes "distinct (request_deque (manager sys))"
    and "\<And>u. u \<in> set (request_deque (manager sys)) \<Longrightarrow>
           \<exists>p. request_dict (manager sys) u = Some p \<and> status (heap (manager sys) p) = PENDING"
    and "\<And>u p. request_dict (manager sys) u = Some p \<Longrightarrow> p < next_ref (manager sys)"
    and "\<And>u v p. request_dict (manager sys) u = Some p \<Longrightarrow> request_dict (manager sys) v = Some p
           \<Longrightarrow> u = v"
    and "main sys = InExecute \<Longrightarrow>
           \<exists>p. request sys = Some p \<and> p < next_ref (manager sys)
               \<and> status (heap (manager sys) p) = EXECUTING"
  shows "sys_inv sys"
  using assms unfolding sys_inv_def Let_def by blast

lemma sys_invD:
  assumes "sys_inv sys"
  shows "distinct (request_deque (manager sys))"
    and "\<And>u. u \<in> set (request_deque (manager sys)) \<Longrightarrow>
           \<exists>p. request_dict (manager sys) u = Some p \<and> status (heap (manager sys) p) = PENDING"
    and "\<And>u p. request_dict (manager sys) u = Some p \<Longrightarrow> p < next_ref (manager sys)"
    and "\<And>u v p. request_dict (manager sys) u = Some p \<Longrightarrow> request_dict (manager sys) v = Some p
           \<Longrightarrow> u = v"
    and "main sys = InExecute \<Longrightarrow>
           \<exists>p. request sys = Some p \<and> p < next_ref (manager sys)
               \<and> status (heap (manager sys) p) = EXECUTING"
  using assms unfolding sys_inv_def Let_def by blast+

lemma create_step:
  assumes inv: "sys_inv sys" and fresh: "request_dict (manager sys) new_uuid = None"
    and sys': "sys' = snd (apply_event (Create new_uuid now act) sys)"
  shows "sys_inv sys'"
    and "status_step (get_request_status (manager sys) u) (get_request_status (manager sys') u)"
proof -
  let ?m = "manager sys"
  let ?n = "next_ref ?m"
  note D = sys_invD [OF inv]
  have dq: "request_deque (manager sys') = request_deque ?m @ [new_uuid]"
    and dc: "request_dict (manager sys') = (request_dict ?m)(new_uuid \<mapsto> ?n)"
    and hp: "heap (manager sys') = (heap ?m)(?n := Request_init new_uuid now act)"
    and nx: "next_ref (manager sys') = Suc ?n"
    and o: "main sys' = main sys" "request sys' = request sys"
    by (simp_all add: sys' apply_event_def create_request_def Let_def Request_init_def)
  have notin: "new_uuid \<notin> set (request_deque ?m)"
    using D(2) fresh by fastforce
  have old: "heap (manager sys') p = heap ?m p" if "p < ?n" for p
    using that by (simp add: hp)
  show "sys_inv sys'"
  proof (rule sys_invI)
    show "distinct (request_deque (manager sys'))"
      using D(1) notin by (simp add: dq)
  next
    fix u assume u: "u \<in> set (request_deque (manager sys'))"
    show "\<exists>p. request_dict (manager sys') u = Some p \<and> status (heap (manager sys') p) = PENDING"
    proof (cases "u = new_uuid")
      case True
      then show ?thesis by (simp add: dc hp Request_init_def)
    next
      case False
      with u have "u \<in> set (request_deque ?m)" by (simp add: dq)
      from D(2) [OF this] obtain p where p: "request_dict ?m u = Some p" "status (heap ?m p) = PENDING"
        by blast
      from D(3) [OF p(1)] have "p < ?n" .
      with p False show ?thesis by (simp add: dc old)
    qed
  next
    fix u p assume "request_dict (manager sys') u = Some p"
    then show "p < next_ref (manager sys')"
      using D(3) [of u p] by (auto simp: dc nx split: if_splits)
  next
    fix u v p
    assume "request_dict (manager sys') u = Some p" "request_dict (manager sys') v = Some p"
    then show "u = v"
      using D(3) [of u p] D(3) [of v p] D(4) [of u p v]
      by (auto simp: dc split: if_splits)
  next
    assume "main sys' = InExecute"
    then have "main sys = InExecute" by (simp add: o)
    from D(5) [OF this] obtain p where
      "request sys = Some p" "p < ?n" "status (heap ?m p) = EXECUTING" by blast
    then show "\<exists>p. request sys' = Some p \<and> p < next_ref (manager sys')
               \<and> status (heap (manager sys') p) = EXECUTING"
      by (simp add: o nx old)
  qed
  show "status_step (get_request_status ?m u) (get_request_status (manager sys') u)"
  proof (cases "u = new_uuid")
    case True
    then show ?thesis
      using fresh by (simp add: get_request_status_def dc hp Request_init_def)
  next
    case False
    show ?thesis
    proof (cases "request_dict ?m u")
      case None
      with False show ?thesis by (simp add: get_request_status_def dc)
    next
      case (Some p)
      from D(3) [OF Some] have "p < ?n" .
      with Some False show ?thesis
        by (simp add: get_request_status_def dc old status_le_refl)
    qed
  qed
qed

lemma discard_step:
  assumes inv: "sys_inv sys"
    and sys': "sys' = snd (apply_event (Discard now) sys)"
  shows "sys_inv sys'"
    and "status_step (get_request_status (manager sys) u) (get_request_status (manager sys') u)"
proof -
  let ?m = "manager sys"
  note D = sys_invD [OF inv]
  have ok: "queue_ok ?m" using inv by (rule sys_inv_queue_ok)
  have dq: "request_deque (manager sys') = filter (\<lambda>u. \<not> too_old now ?m u) (request_deque ?m)"
    and dc: "request_dict (manager sys') =
               (\<lambda>u. if u \<in> set (request_deque ?m) \<and> too_old now ?m u then None else request_dict ?m u)"
    and hp: "heap (manager sys') = heap ?m"
    and nx: "next_ref (manager sys') = next_ref ?m"
    and o: "main sys' = main sys" "request sys' = request sys"
    by (simp_all add: sys' apply_event_def discard_old_result [OF ok])
  show "sys_inv sys'"
  proof (rule sys_invI)
    show "distinct (request_deque (manager sys'))"
      using D(1) by (simp add: dq)
  next
    fix u assume "u \<in> set (request_deque (manager sys'))"
    then have u: "u \<in> set (request_deque ?m)" "\<not> too_old now ?m u" by (simp_all add: dq)
    from D(2) [OF u(1)] u(2)
    show "\<exists>p. request_dict (manager sys') u = Some p \<and> status (heap (manager sys') p) = PENDING"
      by (simp add: dc hp)
  next
    fix u p assume "request_dict (manager sys') u = Some p"
    then show "p < next_ref (manager sys')"
      using D(3) [of u p] by (simp add: dc nx split: if_splits)
  next
    fix u v p
    assume "request_dict (manager sys') u = Some p" "request_dict (manager sys') v = Some p"
    then show "u = v"
      using D(4) [of u p v] by (simp add: dc split: if_splits)
  next
    assume "main sys' = InExecute"
    then have "main sys = InExecute" by (simp add: o)
    from D(5) [OF this]
    show "\<exists>p. request sys' = Some p \<and> p < next_ref (manager sys')
               \<and> status (heap (manager sys') p) = EXECUTING"
      by (simp add: o nx hp)
  qed
  show "status_step (get_request_status ?m u) (get_request_status (manager sys') u)"
  proof (cases "u \<in> set (request_deque ?m) \<and> too_old now ?m u")
    case True
    with D(2) [of u] obtain p where "request_dict ?m u = Some p" "status (heap ?m p) = PENDING"
      by blast
    with True show ?thesis by (simp add: get_request_status_def dc)
  next
    case False
    then have "request_dict (manager sys') u = request_dict ?m u" by (auto simp: dc)
    then show ?thesis
      by (cases "request_dict ?m u") (simp_all add: get_request_status_def hp status_le_refl)
  qed
qed

lemma execute_try_effect:
  "\<exists>r'. snd (execute_try p m) = m\<lparr>heap := (heap m)(p := r')\<rparr>
        \<and> (status r' = EXECUTED \<or> status r' = ERROR)
        \<and> (fst (execute_try p m) = None \<or> fst (execute_try p m) = Some SystemExit)"
proof (cases "action (heap m p) ()")
  case (Return v)
  then show ?thesis
    by (intro exI [of _ "(heap m p)\<lparr>answer := v, status := EXECUTED\<rparr>"])
      (simp add: execute_try_def set_request_def)
next
  case RaiseSystemExit
  then show ?thesis
    by (intro exI [of _ "(heap m p)\<lparr>status := EXECUTED\<rparr>"])
      (simp add: execute_try_def set_request_def)
next
  case (RaiseOther body)
  with traceback_lines_not_Nil [of body] show ?thesis
    by (intro exI [of _ "(heap m p)\<lparr>answer :=
          PyStr (last (filter (\<lambda>l. l \<noteq> []) (split newline (format_exc body)))),
          status := ERROR\<rparr>"])
      (simp add: execute_try_def set_request_def Let_def)
qed

lemma main_step_InExecute:
  assumes "main sys = InExecute" "request sys = Some p"
  shows "\<exists>r'. manager (snd (main_step sys)) = (manager sys)\<lparr>heap := (heap (manager sys))(p := r')\<rparr>
        \<and> (status r' = EXECUTED \<or> status r' = ERROR)
        \<and> main (snd (main_step sys)) \<noteq> InExecute"
proof -
  from execute_try_effect [of p "manager sys"] obtain r' where
    r': "snd (execute_try p (manager sys)) = (manager sys)\<lparr>heap := (heap (manager sys))(p := r')\<rparr>"
      "status r' = EXECUTED \<or> status r' = ERROR" by blast
  obtain x m' where e: "execute_try p (manager sys) = (x, m')" by (cases "execute_try p (manager sys)")
  with r'(1) have m': "m' = (manager sys)\<lparr>heap := (heap (manager sys))(p := r')\<rparr>" by simp
  have "manager (snd (main_step sys)) = m' \<and> main (snd (main_step sys)) \<noteq> InExecute"
    using assms e by (cases x) (simp_all add: main_step_def)
  with m' r'(2) show ?thesis by blast
qed

lemma main_event_step:
  assumes inv: "sys_inv sys"
    and sys': "sys' = snd (apply_event Main sys)"
  shows "sys_inv sys'"
    and "status_step (get_request_status (manager sys) u) (get_request_status (manager sys') u)"
proof -
  let ?m = "manager sys"
  note D = sys_invD [OF inv]
  have s: "sys' = snd (main_step sys)" by (simp add: sys' apply_event_def)
  have "sys_inv sys' \<and>
        status_step (get_request_status ?m u) (get_request_status (manager sys') u)"
  proof (cases "main sys")
    case LeftLoop
    then have "sys' = sys" by (simp add: s main_step_def)
    with inv show ?thesis by (simp add: status_step_refl)
  next
    case InExecute
    from D(5) [OF this] obtain p where
      p: "request sys = Some p" "p < next_ref ?m" "status (heap ?m p) = EXECUTING" by blast
    from main_step_InExecute [OF InExecute p(1)] obtain r' where
      m': "manager sys' = ?m\<lparr>heap := (heap ?m)(p := r')\<rparr>"
      and r': "status r' = EXECUTED \<or> status r' = ERROR"
      and pc: "main sys' \<noteq> InExecute" unfolding s by blast
    have i: "sys_inv sys'"
    proof (rule sys_invI)
      show "distinct (request_deque (manager sys'))" using D(1) by (simp add: m')
    next
      fix v assume "v \<in> set (request_deque (manager sys'))"
      then have "v \<in> set (request_deque ?m)" by (simp add: m')
      from D(2) [OF this] obtain q where q: "request_dict ?m v = Some q" "status (heap ?m q) = PENDING"
        by blast
      with p(3) have "q \<noteq> p" by auto
      with q show "\<exists>p. request_dict (manager sys') v = Some p \<and> status (heap (manager sys') p) = PENDING"
        by (simp add: m')
    next
      fix v q assume "request_dict (manager sys') v = Some q"
      then show "q < next_ref (manager sys')" using D(3) [of v q] by (simp add: m')
    next
      fix v w q
      assume "request_dict (manager sys') v = Some q" "request_dict (manager sys') w = Some q"
      then show "v = w" using D(4) [of v q w] by (simp add: m')
    next
      assume "main sys' = InExecute"
      with pc show "\<exists>p. request sys' = Some p \<and> p < next_ref (manager sys')
               \<and> status (heap (manager sys') p) = EXECUTING" by simp
    qed
    have "status_step (get_request_status ?m u) (get_request_status (manager sys') u)"
    proof (cases "request_dict ?m u")
      case None
      then show ?thesis by (simp add: get_request_status_def m')
    next
      case (Some q)
      show ?thesis
      proof (cases "q = p")
        case True
        with Some p(3) r' show ?thesis by (auto simp: get_request_status_def m')
      next
        case False
        with Some show ?thesis by (simp add: get_request_status_def m' status_le_refl)
      qed
    qed
    with i show ?thesis ..
  next
    case LoopHead
    show ?thesis
    proof (cases "request_deque ?m")
      case Nil
      with LoopHead have m': "manager sys' = ?m" and pc: "main sys' = LoopHead"
        by (simp_all add: s main_step_def get_next_request_def)
      have "sys_inv sys'"
        using inv unfolding sys_inv_def Let_def m' pc LoopHead by simp
      then show ?thesis by (simp add: m' status_step_refl)
    next
      case (Cons v rest)
      from D(2) [of v] Cons obtain p where
        p: "request_dict ?m v = Some p" "status (heap ?m p) = PENDING" by auto
      from LoopHead Cons p(1)
      have m': "manager sys' = ?m\<lparr>request_deque := rest,
                   heap := (heap ?m)(p := (heap ?m p)\<lparr>status := EXECUTING\<rparr>)\<rparr>"
        and pc: "main sys' = InExecute" and rq: "request sys' = Some p"
        by (simp_all add: s main_step_def get_next_request_def execute_begin_def set_request_def)
      from D(1) Cons have vr: "v \<notin> set rest" "distinct rest" by simp_all
      have i: "sys_inv sys'"
      proof (rule sys_invI)
        show "distinct (request_deque (manager sys'))" using vr by (simp add: m')
      next
        fix w assume "w \<in> set (request_deque (manager sys'))"
        then have w: "w \<in> set rest" by (simp add: m')
        with Cons have "w \<in> set (request_deque ?m)" by simp
        from D(2) [OF this] obtain q where
          q: "request_dict ?m w = Some q" "status (heap ?m q) = PENDING" by blast
        have "q \<noteq> p"
        proof
          assume "q = p"
          with q(1) p(1) D(4) [of w p v] have "w = v" by simp
          with w vr(1) show False by simp
        qed
        with q show "\<exists>p. request_dict (manager sys') w = Some p \<and> status (heap (manager sys') p) = PENDING"
          by (simp add: m')
      next
        fix w q assume "request_dict (manager sys') w = Some q"
        then show "q < next_ref (manager sys')" using D(3) [of w q] by (simp add: m')
      next
        fix w x q
        assume "request_dict (manager sys') w = Some q" "request_dict (manager sys') x = Some q"
        then show "w = x" using D(4) [of w q x] by (simp add: m')
      next
        from D(3) [OF p(1)]
        show "\<exists>p. request sys' = Some p \<and> p < next_ref (manager sys')
               \<and> status (heap (manager sys') p) = EXECUTING"
          by (simp add: rq m')
      qed
      have "status_step (get_request_status ?m u) (get_request_status (manager sys') u)"
      proof (cases "request_dict ?m u")
        case None
        then show ?thesis by (simp add: get_request_status_def m')
      next
        case (Some q)
        show ?thesis
        proof (cases "q = p")
          case True
          with Some p(2) show ?thesis by (simp add: get_request_status_def m')
        next
          case False
          with Some show ?thesis by (simp add: get_request_status_def m' status_le_refl)
        qed
      qed
      with i show ?thesis ..
    qed
  qed
  then show "sys_inv sys'"
    and "status_step (get_request_status ?m u) (get_request_status (manager sys') u)"
    by simp_all
qed

lemma event_step:
  assumes "sys_inv sys" "fresh_uuid ev sys"
  shows "sys_inv (snd (apply_event ev sys))"
    and "status_step (get_request_status (manager sys) u)
           (get_request_status (manager (snd (apply_event ev sys))) u)"
proof -
  have "sys_inv (snd (apply_event ev sys)) \<and>
        status_step (get_request_status (manager sys) u)
           (get_request_status (manager (snd (apply_event ev sys))) u)"
  proof (cases ev)
    case (Create new_uuid now act)
    with assms(2) have "request_dict (manager sys) new_uuid = None" by (simp add: fresh_uuid_def)
    from create_step [OF assms(1) this refl] Create show ?thesis by simp
  next
    case (Discard now)
    with discard_step [OF assms(1) refl] show ?thesis by simp
  next
    case Main
    with main_event_step [OF assms(1) refl] show ?thesis by simp
  qed
  then show "sys_inv (snd (apply_event ev sys))"
    and "status_step (get_request_status (manager sys) u)
           (get_request_status (manager (snd (apply_event ev sys))) u)" by simp_all
qed

lemma exec_inv: "sys_inv sys \<Longrightarrow> fresh_uuids evs sys \<Longrightarrow> sys_inv (exec evs sys)"
  by (induction evs arbitrary: sys) (simp_all add: event_step(1))

lemma exec_append: "exec (evs @ evs') sys = exec evs' (exec evs sys)"
  by (induction evs arbitrary: sys) simp_all

lemma fresh_uuids_append:
  "fresh_uuids (evs @ evs') sys \<longleftrightarrow> fresh_uuids evs sys \<and> fresh_uuids evs' (exec evs sys)"
  by (induction evs arbitrary: sys) simp_all

text \<open>
  Claim C6. Along any sequence of events (requests created with fresh uuids, old requests
  discarded, steps of the main thread) that starts with a new RequestManager, what
  \<open>get_request_status\<close> answers for a uuid never goes back: a uuid that becomes known
  is \<open>PENDING\<close>; \<open>PENDING\<close> can only stay or move on; \<open>EXECUTING\<close> never becomes
  \<open>PENDING\<close> again; \<open>EXECUTED\<close> and \<open>ERROR\<close> never change; only a
  \<open>PENDING\<close> request can become unknown.
\<close>

theorem status_never_reverts:
  assumes "fresh_uuids (evs @ [ev]) (system_init (RequestManager_init r d))"
  shows "status_step
           (get_request_status (manager (exec evs (system_init (RequestManager_init r d)))) u)
           (get_request_status (manager (exec (evs @ [ev]) (system_init (RequestManager_init r d)))) u)"
proof -
  let ?init = "system_init (RequestManager_init r d) :: 'a system"
  from assms have f: "fresh_uuids evs ?init" "fresh_uuid ev (exec evs ?init)"
    by (simp_all add: fresh_uuids_append)
  have "sys_inv (exec evs ?init)" using sys_inv_init f(1) by (rule exec_inv)
  from event_step(2) [OF this f(2)] show ?thesis by (simp add: exec_append)
qed

subsection \<open>The main loop in two steps\<close>

lemma coordinator_iteration_two_steps:
  assumes "main sys = LoopHead"
  shows "coordinator_iteration sys =
     (case main_step sys of
        (Some e, sys1) \<Rightarrow> (Some e, sys1)
      | (None, sys1) \<Rightarrow> if main sys1 = InExecute then main_step sys1 else (None, sys1))"
  using assms
  by (auto simp: coordinator_iteration_def main_step_def execute_def Let_def
      split: sum.splits option.splits prod.splits)

subsection \<open>A request from creation to its end\<close>

lemma seven_running:
  "exec seven_events new_system =
     \<lparr>manager = (RequestManager_init None None)
         \<lparr>heap := (heap (RequestManager_init None None))
            (0 := \<lparr>uuid = ''a'', creation_time = 0, action = (\<lambda>_. Return (PyObj 7)),
                   status = EXECUTING, answer = PyNone\<rparr>),
          next_ref := Suc 0,
          request_deque := [],
          request_dict := [''a'' \<mapsto> 0]\<rparr>,
      request = Some 0, main = InExecute, calls = [Pause]\<rparr>"
  by (simp add: seven_events_def new_system_def apply_event_def create_request_def
      Request_init_def main_step_def get_next_request_def system_init_def
      execute_begin_def set_request_def RequestManager_init_def)

lemma seven_done:
  "exec (seven_events @ [Main]) new_system =
     \<lparr>manager = (RequestManager_init None None)
         \<lparr>heap := (heap (RequestManager_init None None))
            (0 := \<lparr>uuid = ''a'', creation_time = 0, action = (\<lambda>_. Return (PyObj 7)),
                   status = EXECUTED, answer = PyObj 7\<rparr>),
          next_ref := Suc 0,
          request_deque := [],
          request_dict := [''a'' \<mapsto> 0]\<rparr>,
      request = Some 0, main = LoopHead, calls = [Pause, Update, Unpause]\<rparr>"
  by (simp add: exec_append seven_running apply_event_def main_step_def execute_try_def
      set_request_def RequestManager_init_def)

lemma seven_fresh: "fresh_uuids (seven_events @ [Main]) new_system"
  by (simp add: seven_events_def new_system_def fresh_uuid_def system_init_def
      RequestManager_init_def)

theorem status_never_reverts_witness:
  "fresh_uuids (seven_events @ [Main]) new_system
   \<and> get_request_status (manager (exec seven_events new_system)) ''a'' = Some EXECUTING
   \<and> get_request_status (manager (exec (seven_events @ [Main]) new_system)) ''a'' = Some EXECUTED
   \<and> status_step (Some EXECUTING) (Some EXECUTED)"
proof -
  have a: "get_request_status (manager (exec seven_events new_system)) ''a'' = Some EXECUTING"
    by (simp add: seven_running get_request_status_def)
  have b: "get_request_status (manager (exec (seven_events @ [Main]) new_system)) ''a'' = Some EXECUTED"
    by (simp add: seven_done get_request_status_def)
  from status_never_reverts [of seven_events Main None None "''a''"] seven_fresh
  have "status_step (Some EXECUTING) (Some EXECUTED)"
    unfolding new_system_def [symmetric] a b by simp
  with seven_fresh a b show ?thesis by simp
qed

text \<open>
  Claim C1 (the code does not do this). A request that was dequeued and executed is not
  discarded by the walk over the deque, however old it is: one day and a microsecond
  after its creation, the walk returns normally and \<open>get_request_status\<close> and
  \<open>get_answer\<close> still answer \<open>EXECUTED\<close> and 7 for its uuid.
\<close>

theorem executed_request_survives_discard:
  "get_request_status (manager (exec (seven_events @ [Main, Discard (one_day + 1)]) new_system)) ''a''
     = Some EXECUTED
   \<and> get_answer (manager (exec (seven_events @ [Main, Discard (one_day + 1)]) new_system)) ''a''
     = PyObj 7
   \<and> too_old (one_day + 1) (manager (exec (seven_events @ [Main]) new_system)) ''a''
   \<and> fst (apply_event (Discard (one_day + 1)) (exec (seven_events @ [Main]) new_system)) = None"
proof -
  have d: "discard_old (one_day + 1) (manager (exec (seven_events @ [Main]) new_system))
         = Inr (manager (exec (seven_events @ [Main]) new_system))"
    by (simp add: seven_done discard_old_def)
  have e: "exec (seven_events @ [Main, Discard (one_day + 1)]) new_system
         = exec (seven_events @ [Main]) new_system"
    using d exec_append [of "seven_events @ [Main]" "[Discard (one_day + 1)]" new_system]
    by (simp add: apply_event_def)
  have t: "too_old (one_day + 1) (manager (exec (seven_events @ [Main]) new_system)) ''a''"
    by (simp add: seven_done too_old_def age_def RequestManager_init_def)
  from d e t show ?thesis
    by (simp add: apply_event_def) (simp add: seven_done get_request_status_def get_answer_def)
qed

subsection \<open>An action that raises SystemExit\<close>

lemma coordinator_iteration_cases:
  assumes "fifo_in_map (manager sys)"
  shows "(case coordinator_iteration sys of
            (None, sys') \<Rightarrow> fifo_in_map (manager sys')
          | (Some e, sys') \<Rightarrow> e = SystemExit \<and> main sys' = LeftLoop \<and>
              (\<exists>p. request sys' = Some p \<and> action (heap (manager sys') p) () = RaiseSystemExit
                   \<and> status (heap (manager sys') p) = EXECUTED)
              \<and> (\<exists>cs. calls sys' = cs @ [Pause]))"
proof (cases "request_deque (manager sys)")
  case Nil
  with assms show ?thesis
    by (simp add: coordinator_iteration_def get_next_request_def)
next
  case (Cons u rest)
  with assms obtain p where p: "request_dict (manager sys) u = Some p"
    by (auto simp: fifo_in_map_def)
  have f: "fifo_in_map (manager sys\<lparr>request_deque := rest\<rparr>)"
    using assms Cons by (auto simp: fifo_in_map_def)
  show ?thesis
  proof (cases "action (heap (manager sys) p) ()")
    case (Return v)
    with Cons p f show ?thesis
      by (simp add: coordinator_iteration_def get_next_request_def execute_Return Let_def
          set_request_def fifo_in_map_def)
  next
    case RaiseSystemExit
    with Cons p f show ?thesis
      by (simp add: coordinator_iteration_def get_next_request_def execute_RaiseSystemExit Let_def
          set_request_def fifo_in_map_def)
  next
    case (RaiseOther body)
    with Cons p f show ?thesis
      by (simp add: coordinator_iteration_def get_next_request_def execute_RaiseOther Let_def
          set_request_def fifo_in_map_def)
  qed
qed

lemma coordinator_loop_exception:
  "fifo_in_map (manager sys) \<Longrightarrow> coordinator_loop n sys = (Some e, sys') \<Longrightarrow>
     e = SystemExit \<and> main sys' = LeftLoop \<and>
     (\<exists>p. request sys' = Some p \<and> action (heap (manager sys') p) () = RaiseSystemExit
          \<and> status (heap (manager sys') p) = EXECUTED)
     \<and> (\<exists>cs. calls sys' = cs @ [Pause])"
proof (induction n arbitrary: sys)
  case 0
  then show ?case by simp
next
  case (Suc n)
  obtain x sys1 where it: "coordinator_iteration sys = (x, sys1)"
    by (cases "coordinator_iteration sys")
  show ?case
  proof (cases x)
    case None
    with it coordinator_iteration_cases [OF Suc.prems(1)] have "fifo_in_map (manager sys1)" by simp
    moreover from it None Suc.prems(2) have "coordinator_loop n sys1 = (Some e, sys')" by simp
    ultimately show ?thesis by (rule Suc.IH)
  next
    case (Some e1)
    with it Suc.prems(2) have "e1 = e" "sys1 = sys'" by simp_all
    with it Some coordinator_iteration_cases [OF Suc.prems(1)] show ?thesis by simp
  qed
qed

lemma main_step_exceptions:
  assumes "sys_inv sys"
  shows "fst (main_step sys) = None \<or> fst (main_step sys) = Some SystemExit"
proof (cases "main sys")
  case LoopHead
  show ?thesis
  proof (cases "request_deque (manager sys)")
    case Nil
    with LoopHead show ?thesis by (simp add: main_step_def get_next_request_def)
  next
    case (Cons v rest)
    with sys_invD(2) [OF assms, of v] obtain p where "request_dict (manager sys) v = Some p"
      by auto
    with LoopHead Cons show ?thesis by (simp add: main_step_def get_next_request_def)
  qed
next
  case InExecute
  from sys_invD(5) [OF assms this] obtain p where p: "request sys = Some p" by blast
  obtain x m' where e: "execute_try p (manager sys) = (x, m')"
    by (cases "execute_try p (manager sys)")
  with execute_try_effect [of p "manager sys"] have "x = None \<or> x = Some SystemExit" by auto
  with InExecute p e show ?thesis by (auto simp: main_step_def)
next
  case LeftLoop
  then show ?thesis by (simp add: main_step_def)
qed

text \<open>
  Claim C4. When the action raises \<open>SystemExit\<close>, \<open>execute\<close> sets the status to
  \<open>EXECUTED\<close> and raises \<open>SystemExit\<close> again. A pass of the main loop that executes such
  a request leaves the loop with \<open>SystemExit\<close> right after the call of \<open>pause\<close>: neither
  \<open>update\<close> nor \<open>unpause\<close> is called. Started with every queued uuid in the dictionary,
  the loop is left by no other exception; and whatever the other threads did before
  (requests created with fresh uuids, old requests discarded), a step of the main thread
  raises nothing but \<open>SystemExit\<close>.
\<close>

theorem SystemExit_leaves_loop:
  "(action (heap s p) () = RaiseSystemExit \<longrightarrow>
      execute p s = (Some SystemExit, set_request p ((heap s p)\<lparr>status := EXECUTED\<rparr>) s))
   \<and> (manager sys = s \<and> get_next_request s = Inr (Some p, m) \<and> action (heap s p) () = RaiseSystemExit \<longrightarrow>
        coordinator_iteration sys =
          (Some SystemExit,
           sys\<lparr>manager := set_request p ((heap s p)\<lparr>status := EXECUTED\<rparr>) m,
               request := Some p, calls := calls sys @ [Pause], main := LeftLoop\<rparr>))
   \<and> (fifo_in_map (manager sys0) \<and> coordinator_loop n sys0 = (Some e, sys') \<longrightarrow>
        e = SystemExit \<and> main sys' = LeftLoop \<and>
        (\<exists>q. request sys' = Some q \<and> action (heap (manager sys') q) () = RaiseSystemExit
             \<and> status (heap (manager sys') q) = EXECUTED) \<and>
        (\<exists>cs. calls sys' = cs @ [Pause]))
   \<and> (fresh_uuids evs (system_init (RequestManager_init r d)) \<longrightarrow>
        fst (apply_event Main (exec evs (system_init (RequestManager_init r d)))) = None \<or>
        fst (apply_event Main (exec evs (system_init (RequestManager_init r d)))) = Some SystemExit)"
proof (intro conjI impI)
  assume "fresh_uuids evs (system_init (RequestManager_init r d))"
  with sys_inv_init have "sys_inv (exec evs (system_init (RequestManager_init r d)))"
    by (rule exec_inv)
  from main_step_exceptions [OF this]
  show "fst (apply_event Main (exec evs (system_init (RequestManager_init r d)))) = None \<or>
        fst (apply_event Main (exec evs (system_init (RequestManager_init r d)))) = Some SystemExit"
    by (simp add: apply_event_def)
next
  assume "action (heap s p) () = RaiseSystemExit"
  then show "execute p s = (Some SystemExit, set_request p ((heap s p)\<lparr>status := EXECUTED\<rparr>) s)"
    by (rule execute_RaiseSystemExit)
next
  assume a: "manager sys = s \<and> get_next_request s = Inr (Some p, m) \<and> action (heap s p) () = RaiseSystemExit"
  then have h: "heap m = heap s" by (auto dest: get_next_request_heap)
  with a have "action (heap m p) () = RaiseSystemExit" by simp
  from execute_RaiseSystemExit [OF this] a h
  show "coordinator_iteration sys =
          (Some SystemExit,
           sys\<lparr>manager := set_request p ((heap s p)\<lparr>status := EXECUTED\<rparr>) m,
               request := Some p, calls := calls sys @ [Pause], main := LeftLoop\<rparr>)"
    by (simp add: coordinator_iteration_def Let_def)
next
  assume "fifo_in_map (manager sys0) \<and> coordinator_loop n sys0 = (Some e, sys')"
  then have "e = SystemExit \<and> main sys' = LeftLoop \<and>
        (\<exists>q. request sys' = Some q \<and> action (heap (manager sys') q) () = RaiseSystemExit
             \<and> status (heap (manager sys') q) = EXECUTED) \<and>
        (\<exists>cs. calls sys' = cs @ [Pause])"
    using coordinator_loop_exception by blast
  then show "e = SystemExit" "main sys' = LeftLoop"
    "\<exists>q. request sys' = Some q \<and> action (heap (manager sys') q) () = RaiseSystemExit
             \<and> status (heap (manager sys') q) = EXECUTED"
    "\<exists>cs. calls sys' = cs @ [Pause]" by blast+
qed

lemma exit_events_fresh: "fresh_uuids exit_events new_system"
  by (simp add: exit_events_def new_system_def fresh_uuid_def system_init_def
      RequestManager_init_def)

lemma exit_events_raise: "fst (apply_event Main (exec exit_events new_system)) = Some SystemExit"
  by (simp add: exit_events_def new_system_def apply_event_def create_request_def
      Request_init_def main_step_def get_next_request_def system_init_def
      execute_begin_def execute_try_def set_request_def RequestManager_init_def)

theorem SystemExit_leaves_loop_witness:
  "action (heap exit_state 0) () = RaiseSystemExit
   \<and> manager (system_init exit_state) = exit_state
   \<and> get_next_request exit_state = Inr (Some 0, exit_state\<lparr>request_deque := []\<rparr>)
   \<and> fifo_in_map (manager (system_init exit_state))
   \<and> fresh_uuids exit_events new_system
   \<and> execute 0 exit_state =
        (Some SystemExit, set_request 0 ((heap exit_state 0)\<lparr>status := EXECUTED\<rparr>) exit_state)
   \<and> fst (coordinator_loop (Suc 0) (system_init exit_state)) = Some SystemExit
   \<and> calls (snd (coordinator_loop (Suc 0) (system_init exit_state))) = [Pause]
   \<and> main (snd (coordinator_loop (Suc 0) (system_init exit_state))) = LeftLoop
   \<and> fst (apply_event Main (exec exit_events new_system)) = Some SystemExit
   \<and> fst (apply_event Main (exec exit_events new_system)) \<noteq> Some KeyError
   \<and> fst (apply_event Main (exec exit_events new_system)) \<noteq> Some IndexError"
proof -
  let ?m = "exit_state\<lparr>request_deque := []\<rparr>"
  let ?sys' = "(system_init exit_state)\<lparr>manager := set_request 0 ((heap exit_state 0)\<lparr>status := EXECUTED\<rparr>) ?m,
               request := Some 0, calls := calls (system_init exit_state) @ [Pause], main := LeftLoop\<rparr>"
  have a: "action (heap exit_state 0) () = RaiseSystemExit"
    by (simp add: exit_state_def create_request_def RequestManager_init_def Request_init_def)
  have g: "get_next_request exit_state = Inr (Some 0, ?m)"
    by (simp add: exit_state_def create_request_def RequestManager_init_def Request_init_def
        get_next_request_def)
  have f: "fifo_in_map (manager (system_init exit_state))"
    by (simp add: fifo_in_map_def system_init_def exit_state_def create_request_def
        RequestManager_init_def Request_init_def)
  have mg: "manager (system_init exit_state) = exit_state"
    by (simp add: system_init_def)
  note inst = SystemExit_leaves_loop [of exit_state 0 "system_init exit_state" ?m
      "system_init exit_state" "Suc 0" SystemExit ?sys' exit_events None None]
  from inst a have ex: "execute 0 exit_state =
        (Some SystemExit, set_request 0 ((heap exit_state 0)\<lparr>status := EXECUTED\<rparr>) exit_state)"
    by blast
  from inst a g mg have it: "coordinator_iteration (system_init exit_state) = (Some SystemExit, ?sys')"
    by blast
  then have lp: "coordinator_loop (Suc 0) (system_init exit_state) = (Some SystemExit, ?sys')"
    by simp
  with inst f have lf: "main ?sys' = LeftLoop" by blast
  from inst exit_events_fresh
  have "fst (apply_event Main (exec exit_events new_system)) = None \<or>
        fst (apply_event Main (exec exit_events new_system)) = Some SystemExit"
    unfolding new_system_def by blast
  then have ev: "fst (apply_event Main (exec exit_events new_system)) \<noteq> Some KeyError"
    "fst (apply_event Main (exec exit_events new_system)) \<noteq> Some IndexError" by auto
  from a g f mg ex lp lf ev exit_events_fresh exit_events_raise show ?thesis
    by (simp add: system_init_def)
qed

subsection \<open>Looking requests up\<close>

lemma boom_state_eq:
  "boom_state =
     (RequestManager_init None None)
       \<lparr>heap := (heap (RequestManager_init None None))(0 := Request_init ''b'' 0 (\<lambda>_. RaiseOther boom_body)),
        next_ref := Suc 0,
        request_deque := [''b''],
        request_dict := [''b'' \<mapsto> 0]\<rparr>"
  by (simp add: boom_state_def create_request_def RequestManager_init_def Request_init_def)

lemma queue_ok_boom_state: "queue_ok boom_state"
  by (simp add: boom_state_eq queue_ok_def fifo_in_map_def)

lemma discard_old_keeps_dequeued:
  assumes "queue_ok s" "u \<notin> set (request_deque s)" "discard_old now s = Inr s'"
  shows "request_dict s' u = request_dict s u" and "heap s' = heap s"
  using assms(2,3) unfolding discard_old_result [OF assms(1)] by auto

text \<open>
  Claim C8 as stated fails: \<open>get_answer\<close> gives \<open>None\<close> for the uuid of a request that
  is registered and still pending, the same value as for a uuid that is unknown.
\<close>

theorem none_is_also_the_answer_of_a_pending_request:
  "request_dict boom_state ''b'' = Some 0
   \<and> get_request_status boom_state ''b'' = Some PENDING
   \<and> get_answer boom_state ''b'' = PyNone
   \<and> request_dict boom_state ''z'' = None
   \<and> get_answer boom_state ''z'' = PyNone"
  by (simp add: boom_state_eq get_request_status_def get_answer_def Request_init_def)

text \<open>
  Claim C8, amended. For a uuid that is not a key of the dictionary (never created, as in
  a new RequestManager, or discarded as too old) \<open>get_request_status\<close> and \<open>get_answer\<close>
  both return \<open>None\<close>; for a key they return the status and the answer of its request.
  \<open>get_request_status\<close> returns \<open>None\<close> for unknown uuids only.
\<close>

theorem lookup_by_uuid:
  "(request_dict s u = None \<longrightarrow> get_request_status s u = None \<and> get_answer s u = PyNone)
   \<and> (request_dict s u = Some p \<longrightarrow>
        get_request_status s u = Some (status (heap s p)) \<and> get_answer s u = answer (heap s p))
   \<and> (get_request_status s u = None \<longleftrightarrow> request_dict s u = None)
   \<and> get_request_status (RequestManager_init r d :: 'a state) u = None
   \<and> get_answer (RequestManager_init r d :: 'a state) u = PyNone
   \<and> (queue_ok s \<and> u \<in> set (request_deque s) \<and> too_old now s u \<longrightarrow>
        (\<exists>s'. discard_old now s = Inr s' \<and> get_request_status s' u = None \<and> get_answer s' u = PyNone))"
proof (intro conjI impI)
  assume "queue_ok s \<and> u \<in> set (request_deque s) \<and> too_old now s u"
  then show "\<exists>s'. discard_old now s = Inr s' \<and> get_request_status s' u = None \<and> get_answer s' u = PyNone"
    by (simp add: discard_old_result get_request_status_def get_answer_def)
qed (auto simp: get_request_status_def get_answer_def RequestManager_init_def split: option.splits)

theorem lookup_by_uuid_witness:
  "request_dict boom_state ''z'' = None
   \<and> get_request_status boom_state ''z'' = None
   \<and> request_dict boom_state ''b'' = Some 0
   \<and> get_request_status boom_state ''b'' = Some (status (heap boom_state 0))
   \<and> get_answer boom_state ''b'' = answer (heap boom_state 0)
   \<and> queue_ok boom_state \<and> ''b'' \<in> set (request_deque boom_state)
   \<and> too_old (one_day + 1) boom_state ''b''
   \<and> (\<exists>s'. discard_old (one_day + 1) boom_state = Inr s' \<and> get_request_status s' ''b'' = None
          \<and> get_answer s' ''b'' = PyNone)"
proof -
  have z: "request_dict boom_state ''z'' = None" and b: "request_dict boom_state ''b'' = Some 0"
    and q: "''b'' \<in> set (request_deque boom_state)"
    by (simp_all add: boom_state_eq)
  have t: "too_old (one_day + 1) boom_state ''b''"
    by (simp add: boom_state_eq too_old_def age_def Request_init_def RequestManager_init_def)
  from lookup_by_uuid [of boom_state "''z''" 0 None None "one_day + 1"] z
  have 1: "get_request_status boom_state ''z'' = None" by blast
  from lookup_by_uuid [of boom_state "''b''" 0 None None "one_day + 1"] b q t queue_ok_boom_state
  have 2: "get_request_status boom_state ''b'' = Some (status (heap boom_state 0))"
    "get_answer boom_state ''b'' = answer (heap boom_state 0)"
    "\<exists>s'. discard_old (one_day + 1) boom_state = Inr s' \<and> get_request_status s' ''b'' = None
          \<and> get_answer s' ''b'' = PyNone"
    by blast+
  from z b q t queue_ok_boom_state 1 2 show ?thesis by blast
qed

text \<open>
  Claim C9 as stated fails: \<open>get_next_request\<close> removes a uuid from the deque and
  leaves it in the dictionary.
\<close>

theorem dequeued_uuid_stays_in_map:
  "''b'' \<in> set (request_deque boom_state)
   \<and> get_next_request boom_state = Inr (Some 0, boom_state\<lparr>request_deque := []\<rparr>)
   \<and> ''b'' \<notin> set (request_deque (boom_state\<lparr>request_deque := []\<rparr>))
   \<and> request_dict (boom_state\<lparr>request_deque := []\<rparr>) ''b'' = Some 0"
  by (simp add: boom_state_eq get_next_request_def)

text \<open>
  Claim C9, amended. A new RequestManager has every uuid of the deque in the dictionary
  (and no uuid twice in the deque); \<open>create_request\<close> with a fresh uuid,
  \<open>get_next_request\<close> and the discarding of old requests return normally and keep this.
  \<open>get_next_request\<close> does not change the dictionary; a uuid that the discarding
  removes from the dictionary was in the deque and is no longer in it.
\<close>

theorem fifo_in_map_kept:
  "queue_ok (RequestManager_init r d)
   \<and> (queue_ok s \<and> request_dict s new_uuid = None \<longrightarrow>
        queue_ok (snd (create_request new_uuid t act s)))
   \<and> (queue_ok s \<longrightarrow>
        (\<exists>r s'. get_next_request s = Inr (r, s') \<and> queue_ok s' \<and> request_dict s' = request_dict s))
   \<and> (queue_ok s \<longrightarrow>
        (\<exists>s'. discard_old now s = Inr s' \<and> queue_ok s' \<and>
           (\<forall>u. request_dict s u \<noteq> None \<and> request_dict s' u = None \<longrightarrow>
                u \<in> set (request_deque s) \<and> u \<notin> set (request_deque s'))))"
  using queue_ok_init queue_ok_create queue_ok_get_next queue_ok_discard by blast

theorem fifo_in_map_kept_witness:
  "queue_ok boom_state \<and> request_dict boom_state ''c'' = None
   \<and> queue_ok (snd (create_request ''c'' 5 (\<lambda>_. Return PyNone) boom_state))
   \<and> fifo_in_map (snd (create_request ''c'' 5 (\<lambda>_. Return PyNone) boom_state))
   \<and> (\<exists>r s'. get_next_request boom_state = Inr (r, s') \<and> queue_ok s')
   \<and> (\<exists>s'. discard_old (one_day + 1) boom_state = Inr s' \<and> queue_ok s')"
proof -
  have c: "request_dict boom_state ''c'' = None" by (simp add: boom_state_eq)
  from fifo_in_map_kept [of None None boom_state "''c''" 5 "\<lambda>_. Return PyNone" "one_day + 1"]
    queue_ok_boom_state c
  have "queue_ok (snd (create_request ''c'' 5 (\<lambda>_. Return PyNone) boom_state))"
    "\<exists>r s'. get_next_request boom_state = Inr (r, s') \<and> queue_ok s'"
    "\<exists>s'. discard_old (one_day + 1) boom_state = Inr s' \<and> queue_ok s'"
    by blast+
  with queue_ok_boom_state c show ?thesis by (auto simp: queue_ok_def)
qed

subsection \<open>The hourly test of the RequestManager\<close>

lemma run_loop_waiting:
  "time_passed + of_nat n * responsiveness s < 3600 \<Longrightarrow> 0 \<le> responsiveness s \<Longrightarrow>
     run_loop (replicate n (False, now) @ env) time_passed s =
       (case run_loop env (time_passed + of_nat n * responsiveness s) s of
          Inl e \<Rightarrow> Inl e
        | Inr (ts, s') \<Rightarrow> Inr (replicate n Waited @ ts, s'))"
proof (induction n arbitrary: time_passed)
  case 0
  then show ?case by (simp split: sum.splits)
next
  case (Suc n)
  have eq: "time_passed + responsiveness s + of_nat n * responsiveness s
          = time_passed + of_nat (Suc n) * responsiveness s"
    by (simp add: algebra_simps)
  with Suc.prems have lt: "time_passed + responsiveness s + of_nat n * responsiveness s < 3600"
    by simp
  moreover have "0 \<le> of_nat n * responsiveness s" using Suc.prems(2) by simp
  ultimately have now_lt: "time_passed + responsiveness s < 3600" by linarith
  from Suc.IH [OF lt Suc.prems(2)] now_lt show ?case
    by (simp add: eq Let_def split: sum.splits prod.splits)
qed

text \<open>
  Claim C7 (the code does not do this). \<open>time_passed\<close> is never set back to 0: with the
  default responsiveness of half a second the loop waits for 7199 iterations, discards
  at the 7200th, and discards again at the 7201st, half a second later.
\<close>

theorem discards_on_consecutive_ticks:
  "run (replicate 7199 (False, 0) @ [(False, 0), (False, 0)]) (RequestManager_init None None :: nat state)
     = Inr (replicate 7199 Waited @ [Discarded, Discarded], RequestManager_init None None)"
proof -
  let ?s = "RequestManager_init None None :: nat state"
  have r: "responsiveness ?s = 1 / 2" by (simp add: RequestManager_init_def)
  have d: "discard_old 0 ?s = Inr ?s"
    by (simp add: discard_old_def RequestManager_init_def)
  have "run_loop (replicate 7199 (False, 0) @ [(False, 0), (False, 0)]) 0 ?s =
       (case run_loop [(False, 0), (False, 0)] (0 + of_nat 7199 * responsiveness ?s) ?s of
          Inl e \<Rightarrow> Inl e
        | Inr (ts, s') \<Rightarrow> Inr (replicate 7199 Waited @ ts, s'))"
    by (rule run_loop_waiting) (simp_all add: r)
  also have "run_loop [(False, 0), (False, 0)] (0 + of_nat 7199 * responsiveness ?s) ?s
       = Inr ([Discarded, Discarded], ?s)"
    by (simp add: r d)
  finally show ?thesis by (simp add: run_def)
qed

subsection \<open>The loops of the StatusUpdater\<close>

lemma active_updater_never_updates:
  "\<not> paused u \<Longrightarrow> \<not> stop_flag u \<Longrightarrow> pc u \<noteq> Returned \<Longrightarrow>
     updates (steps n u) = updates u \<and> pc (steps n u) \<noteq> Returned
     \<and> executed (steps n u) = executed u \<and> update_now (steps n u) = update_now u"
proof (induction n arbitrary: u)
  case 0
  then show ?case by simp
next
  case (Suc n)
  have s: "\<not> paused (step u)" "\<not> stop_flag (step u)" "pc (step u) \<noteq> Returned"
    "updates (step u) = updates u" "executed (step u) = executed u"
    "update_now (step u) = update_now u"
    using Suc.prems by (cases "pc u"; simp add: step_def)+
  from Suc.IH [OF s(1-3)] s(4-6) show ?case by simp
qed

text \<open>
  Claim C2 (the code does not do this). A StatusUpdater that is not paused and not
  stopped never calls \<open>_update\<close>, however many steps \<open>run\<close> makes: both inner loops
  are skipped.
\<close>

theorem active_updater_does_not_refresh:
  "\<forall>n. updates (steps n (StatusUpdater_init None None)) = []
       \<and> pc (steps n (StatusUpdater_init None None)) \<noteq> Returned
       \<and> \<not> paused (StatusUpdater_init None None) \<and> \<not> stop_flag (StatusUpdater_init None None)"
proof
  fix n
  have "\<not> paused (StatusUpdater_init None None)" "\<not> stop_flag (StatusUpdater_init None None)"
    "pc (StatusUpdater_init None None) \<noteq> Returned" "updates (StatusUpdater_init None None) = []"
    by (simp_all add: StatusUpdater_init_def)
  with active_updater_never_updates [of "StatusUpdater_init None None" n]
  show "updates (steps n (StatusUpdater_init None None)) = []
       \<and> pc (steps n (StatusUpdater_init None None)) \<noteq> Returned
       \<and> \<not> paused (StatusUpdater_init None None) \<and> \<not> stop_flag (StatusUpdater_init None None)"
    by simp
qed

text \<open>
  Claim C3 (the code does not do this). A paused StatusUpdater with the default settings
  and no update requested calls \<open>_update\<close> at its eleventh step, from the timer test
  of the first inner loop: after ten steps \<open>time_without_update\<close> is 5, and the next
  sleep brings it above \<open>update_time\<close>.
\<close>

theorem paused_updater_refreshes_on_timer:
  "updates (steps 11 (pause (StatusUpdater_init None None))) = [TimerInFirstLoop]
   \<and> updates (steps 10 (pause (StatusUpdater_init None None))) = []
   \<and> paused (steps 10 (pause (StatusUpdater_init None None)))
   \<and> \<not> update_now (steps 10 (pause (StatusUpdater_init None None)))
   \<and> time_without_update (steps 10 (pause (StatusUpdater_init None None))) = 5"
  by (simp add: eval_nat_numeral StatusUpdater_init_def pause_def step_def first_loop_body_def Let_def)

end
